theory Spec2Isabelle
  imports Complex_Main "HOL-Library.Sublist" "HOL-Library.Product_Lexorder"
begin

section \<open>Python strings and integers\<close>

text \<open>
  The scripts of the repository are Python 3. A Python \<open>str\<close> is modelled as a
  \<^typ>\<open>string\<close> whose characters are the code points below 256, so that the
  character classes used by \<open>str.strip\<close>, \<open>str.split\<close>, \<open>str.isdigit\<close> and \<open>int\<close>
  can be written out for that range. Python integers are \<^typ>\<open>int\<close>, floats are
  \<^typ>\<open>real\<close> (rounding is not modelled), and the conversion \<open>float(s)\<close> is a
  parameter \<open>float_of\<close> of the functions that call it. The interpreter's limit on the
  number of digits of an integer conversion is not modelled.
\<close>

datatype error = ValueError | IndexError | SysExit int

abbreviation NL :: string where
  "NL \<equiv> [CHR 0x0A]"

definition is_space :: "char \<Rightarrow> bool" where
  "is_space c \<longleftrightarrow> c \<in> set [CHR 0x09, CHR 0x0A, CHR 0x0B, CHR 0x0C, CHR 0x0D,
      CHR 0x1C, CHR 0x1D, CHR 0x1E, CHR 0x1F, CHR 0x20, CHR 0x85, CHR 0xA0]"

definition strip :: "string \<Rightarrow> string" where
  "strip s = rev (dropWhile is_space (rev (dropWhile is_space s)))"

fun split_acc :: "string \<Rightarrow> string \<Rightarrow> string list" where
  "split_acc cur [] = (if cur = [] then [] else [rev cur])"
| "split_acc cur (c # cs) =
     (if is_space c then (if cur = [] then split_acc [] cs else rev cur # split_acc [] cs)
      else split_acc (c # cur) cs)"

definition split_ws :: "string \<Rightarrow> string list" where
  "split_ws s = split_acc [] s"

fun split_on_acc :: "char \<Rightarrow> string \<Rightarrow> string \<Rightarrow> string list" where
  "split_on_acc d cur [] = [rev cur]"
| "split_on_acc d cur (c # cs) =
     (if c = d then rev cur # split_on_acc d [] cs else split_on_acc d (c # cur) cs)"

definition split_on :: "char \<Rightarrow> string \<Rightarrow> string list" where
  "split_on d s = split_on_acc d [] s"

definition replace_char :: "char \<Rightarrow> char \<Rightarrow> string \<Rightarrow> string" where
  "replace_char a b s = map (\<lambda>c. if c = a then b else c) s"

fun contains :: "string \<Rightarrow> string \<Rightarrow> bool" where
  "contains sub [] = (sub = [])"
| "contains sub (c # cs) = (prefix sub (c # cs) \<or> contains sub cs)"

fun join :: "string \<Rightarrow> string list \<Rightarrow> string" where
  "join sep [] = []"
| "join sep [x] = x"
| "join sep (x # y # ys) = x @ sep @ join sep (y # ys)"

definition is_digit :: "char \<Rightarrow> bool" where
  "is_digit c \<longleftrightarrow> c \<in> set ''0123456789''"

definition digit_val :: "char \<Rightarrow> nat" where
  "digit_val c = of_char c - 48"

definition digit_char :: "nat \<Rightarrow> char" where
  "digit_char n = ''0123456789'' ! n"

fun nat_str :: "nat \<Rightarrow> string" where
  "nat_str n = (if n < 10 then [digit_char n] else nat_str (n div 10) @ [digit_char (n mod 10)])"

declare nat_str.simps [simp del]

definition py_str :: "int \<Rightarrow> string" where
  "py_str i = (if i < 0 then CHR ''-'' # nat_str (nat (- i)) else nat_str (nat i))"

fun int_digits :: "nat \<Rightarrow> string \<Rightarrow> nat option" where
  "int_digits acc [] = Some acc"
| "int_digits acc (c # cs) =
     (if is_digit c then int_digits (10 * acc + digit_val c) cs
      else if c = CHR ''_'' then
        (case cs of [] \<Rightarrow> None | d # _ \<Rightarrow> if is_digit d then int_digits acc cs else None)
      else None)"

definition int_body :: "string \<Rightarrow> nat option" where
  "int_body s = (case s of [] \<Rightarrow> None | c # _ \<Rightarrow> if is_digit c then int_digits 0 s else None)"

definition py_int :: "string \<Rightarrow> int option" where
  "py_int s =
     (case strip s of
        [] \<Rightarrow> None
      | c # cs \<Rightarrow>
          if c = CHR ''-'' then map_option (\<lambda>n. - int n) (int_body cs)
          else if c = CHR ''+'' then map_option int (int_body cs)
          else map_option int (int_body (c # cs)))"

section \<open>Text files as line sequences\<close>

text \<open>
  A file opened in text mode is read with universal newlines: \<open>\r\n\<close> and a lone
  \<open>\r\<close> arrive as \<open>\n\<close>, and iterating the file yields the lines with their
  terminator, the last one possibly without.
\<close>

fun translate_newlines :: "string \<Rightarrow> string" where
  "translate_newlines [] = []"
| "translate_newlines (c # cs) =
     (if c = CHR 0x0D then
        (case cs of
           [] \<Rightarrow> NL
         | d # ds \<Rightarrow> if d = CHR 0x0A then CHR 0x0A # translate_newlines ds
                     else CHR 0x0A # translate_newlines cs)
      else c # translate_newlines cs)"

fun lines_acc :: "string \<Rightarrow> string \<Rightarrow> string list" where
  "lines_acc cur [] = (if cur = [] then [] else [rev cur])"
| "lines_acc cur (c # cs) =
     (if c = CHR 0x0A then rev (c # cur) # lines_acc [] cs else lines_acc (c # cur) cs)"

definition file_lines :: "string \<Rightarrow> string list" where
  "file_lines text = lines_acc [] (translate_newlines text)"

section \<open>DIMACS codec of the Rayleigh runners\<close>

text \<open>
  \<open>read_dimacs\<close>, \<open>write_dimacs\<close> and \<open>add_unit_clauses\<close> of
  \<open>run_asr_v4_rayleigh_clean.py\<close> (the same text as in \<open>run_asr_v4_forcewalk.py\<close>).
  A CNF value is the tuple \<open>(nvars, clauses, comments)\<close> that \<open>read_dimacs\<close> returns;
  a file is its content.
\<close>

type_synonym cnf = "int \<times> int list list \<times> string list"

definition read_dimacs_line :: "cnf \<Rightarrow> string \<Rightarrow> error + cnf" where
  "read_dimacs_line st raw =
     (case st of (nvars, clauses, comments) \<Rightarrow>
        let line = strip raw in
        if line = [] then Inr st
        else if prefix ''c'' line then Inr (nvars, clauses, comments @ [line])
        else if prefix ''p'' line then
          (let parts = split_ws line in
           if length parts \<ge> 4 \<and> parts ! 1 = ''cnf'' then
             (case py_int (parts ! 2) of
                None \<Rightarrow> Inl ValueError
              | Some n \<Rightarrow> Inr (n, clauses, comments))
           else Inr st)
        else
          (case those (map py_int (split_ws line)) of
             None \<Rightarrow> Inl ValueError
           | Some lits \<Rightarrow>
               if lits = [] then Inr st
               else Inr (nvars, clauses @ [if last lits = 0 then butlast lits else lits],
                         comments)))"

fun read_dimacs_lines :: "cnf \<Rightarrow> string list \<Rightarrow> error + cnf" where
  "read_dimacs_lines st [] = Inr st"
| "read_dimacs_lines st (raw # rest) =
     (case read_dimacs_line st raw of
        Inl e \<Rightarrow> Inl e
      | Inr st' \<Rightarrow> read_dimacs_lines st' rest)"

definition read_dimacs :: "string \<Rightarrow> error + cnf" where
  "read_dimacs text =
     (case read_dimacs_lines (0, [], []) (file_lines text) of
        Inl e \<Rightarrow> Inl e
      | Inr (nvars, clauses, comments) \<Rightarrow>
          if nvars \<le> 0 then Inl ValueError else Inr (nvars, clauses, comments))"

definition clause_line :: "int list \<Rightarrow> string" where
  "clause_line cl =
     (if length cl = 0 then ''0'' @ NL else join '' '' (map py_str cl) @ '' 0'' @ NL)"

definition header_line :: "int \<Rightarrow> int \<Rightarrow> string" where
  "header_line nv nc = ''p cnf '' @ py_str nv @ '' '' @ py_str nc @ NL"

definition write_dimacs :: "cnf \<Rightarrow> string" where
  "write_dimacs c =
     (case c of (nvars, clauses, comments) \<Rightarrow>
        concat (map (\<lambda>cm. cm @ NL) comments)
        @ header_line nvars (int (length clauses))
        @ concat (map clause_line clauses))"

definition add_unit_clauses :: "string \<Rightarrow> int list \<Rightarrow> error + string" where
  "add_unit_clauses src new_units =
     (case read_dimacs src of
        Inl e \<Rightarrow> Inl e
      | Inr (nvars, clauses, comments) \<Rightarrow>
          Inr (write_dimacs (nvars, clauses @ map (\<lambda>lit. [lit]) new_units, comments)))"

text \<open>
  Well-formedness of a CNF value for the purpose of the codec: the variable count that
  \<open>read_dimacs\<close> accepts, and comment lines as \<open>read_dimacs\<close> stores them (one
  stripped line that starts with the comment marker). Clauses are unconstrained.
\<close>

definition no_space :: "string \<Rightarrow> bool" where
  "no_space s \<longleftrightarrow> (\<forall>c \<in> set s. \<not> is_space c)"

definition wf_comment :: "string \<Rightarrow> bool" where
  "wf_comment cm \<longleftrightarrow>
     prefix ''c'' cm \<and> strip cm = cm \<and> CHR 0x0A \<notin> set cm \<and> CHR 0x0D \<notin> set cm"

definition wf_cnf :: "cnf \<Rightarrow> bool" where
  "wf_cnf c \<longleftrightarrow>
     (case c of (nvars, clauses, comments) \<Rightarrow> 0 < nvars \<and> list_all wf_comment comments)"

definition raw_line :: "string \<Rightarrow> bool" where
  "raw_line l \<longleftrightarrow> CHR 0x0D \<notin> set l \<and> CHR 0x0A \<notin> set (butlast l)"

section \<open>The unit-clause script \<open>apply_units.py\<close>\<close>



fun apply_units_rewrite :: "string \<Rightarrow> bool \<Rightarrow> string list \<Rightarrow> string list" where
  "apply_units_rewrite hdr header_done [] = []"
| "apply_units_rewrite hdr header_done (line # rest) =
     (if \<not> header_done \<and> prefix ''p '' (strip line)
      then hdr # apply_units_rewrite hdr True rest
      else line # apply_units_rewrite hdr header_done rest)"



section \<open>DIMACS reader of \<open>pick_literals_asr_v0b.py\<close>\<close>

text \<open>
  \<open>parse_dimacs\<close> counts the occurrences per polarity in two dictionaries that are only
  read with \<open>get(v, 0)\<close>; they are functions with value 0 off their keys. \<open>die\<close> is
  \<open>SysExit 1\<close>. A missing file is not modelled: the argument is the file's content.
\<close>

type_synonym occ = "int \<Rightarrow> nat"

fun parse_dimacs_tokens ::
  "string list \<Rightarrow> int list \<times> occ \<times> occ \<Rightarrow> error + (int list \<times> occ \<times> occ)" where
  "parse_dimacs_tokens [] st = Inr st"
| "parse_dimacs_tokens (tok # toks) st =
     (case st of (lits, pos, neg) \<Rightarrow>
        if tok = ''0'' then Inr st
        else case py_int tok of
          None \<Rightarrow> Inl ValueError
        | Some lit \<Rightarrow>
            (let v = \<bar>lit\<bar> in
             if lit > 0 then parse_dimacs_tokens toks (lits @ [lit], pos(v := pos v + 1), neg)
             else parse_dimacs_tokens toks (lits @ [lit], pos, neg(v := neg v + 1))))"

type_synonym v0b_state = "int option \<times> int list list \<times> occ \<times> occ"

definition parse_dimacs_line :: "v0b_state \<Rightarrow> string \<Rightarrow> error + v0b_state" where
  "parse_dimacs_line st raw =
     (case st of (num_vars, clauses, pos, neg) \<Rightarrow>
        let s = strip raw in
        if s = [] then Inr st
        else if prefix ''c'' s then Inr st
        else if prefix ''p'' s then
          (let parts = split_ws s in
           if length parts < 4 \<or> parts ! 0 \<noteq> ''p'' \<or> parts ! 1 \<noteq> ''cnf'' then Inl (SysExit 1)
           else case py_int (parts ! 2) of
             None \<Rightarrow> Inl ValueError
           | Some n \<Rightarrow> Inr (Some n, clauses, pos, neg))
        else
          (case parse_dimacs_tokens (split_ws s) ([], pos, neg) of
             Inl e \<Rightarrow> Inl e
           | Inr (lits, pos', neg') \<Rightarrow>
               if lits \<noteq> [] then Inr (num_vars, clauses @ [lits], pos', neg')
               else Inr (num_vars, clauses, pos', neg')))"

fun parse_dimacs_lines :: "v0b_state \<Rightarrow> string list \<Rightarrow> error + v0b_state" where
  "parse_dimacs_lines st [] = Inr st"
| "parse_dimacs_lines st (raw # rest) =
     (case parse_dimacs_line st raw of
        Inl e \<Rightarrow> Inl e
      | Inr st' \<Rightarrow> parse_dimacs_lines st' rest)"

definition parse_dimacs :: "string \<Rightarrow> error + (int \<times> int list list \<times> occ \<times> occ)" where
  "parse_dimacs text =
     (case parse_dimacs_lines (None, [], (\<lambda>_. 0), (\<lambda>_. 0)) (file_lines text) of
        Inl e \<Rightarrow> Inl e
      | Inr (None, _) \<Rightarrow> Inl (SysExit 1)
      | Inr (Some num_vars, clauses, pos, neg) \<Rightarrow>
          if clauses = [] then Inl (SysExit 1) else Inr (num_vars, clauses, pos, neg))"

section \<open>Solver log parsers\<close>

datatype verdict = SAT | UNSAT | UNKNOWN

text \<open>
  \<open>parse_glucose_log\<close> of \<open>run_asr_v4_rayleigh_clean.py\<close>; the function of the same
  name in \<open>run_asr_v4_forcewalk.py\<close> has the same statements. The state of the loop is
  \<open>(status, conflicts, cpu_time)\<close>; the bare \<open>except\<close> clauses keep the old value.
\<close>

definition status_clean :: "verdict \<Rightarrow> string \<Rightarrow> verdict" where
  "status_clean status s =
     (if prefix ''s '' s then
        (if contains ''SATISFIABLE'' s \<and> \<not> contains ''UNSAT'' s then SAT
         else if contains ''UNSATISFIABLE'' s then UNSAT
         else status)
      else status)"

fun conflicts_scan :: "string list \<Rightarrow> int \<Rightarrow> int" where
  "conflicts_scan (p # q # rest) conflicts =
     conflicts_scan (q # rest)
       (if p = ''conflicts'' then (case py_int q of None \<Rightarrow> conflicts | Some n \<Rightarrow> n)
        else conflicts)"
| "conflicts_scan parts conflicts = conflicts"

definition cpu_last :: "(string \<Rightarrow> real option) \<Rightarrow> string list \<Rightarrow> real \<Rightarrow> real" where
  "cpu_last float_of parts cpu_time =
     (case rev parts of
        [] \<Rightarrow> cpu_time
      | l # r \<Rightarrow>
          if l = ''s'' then
            (case r of
               [] \<Rightarrow> cpu_time
             | m # _ \<Rightarrow> (case float_of m of None \<Rightarrow> cpu_time | Some x \<Rightarrow> x))
          else (case float_of l of None \<Rightarrow> cpu_time | Some x \<Rightarrow> x))"

definition parse_glucose_log_line ::
  "(string \<Rightarrow> real option) \<Rightarrow> verdict \<times> int \<times> real \<Rightarrow> string \<Rightarrow> verdict \<times> int \<times> real" where
  "parse_glucose_log_line float_of st line =
     (case st of (status, conflicts, cpu_time) \<Rightarrow>
        let s = strip line in
        (status_clean status s,
         (if prefix ''c conflicts'' s
          then conflicts_scan (split_ws (replace_char CHR '':'' CHR '' '' s)) conflicts
          else conflicts),
         (if prefix ''c CPU time'' s
          then cpu_last float_of (split_ws (replace_char CHR '':'' CHR '' '' s)) cpu_time
          else cpu_time)))"

definition parse_glucose_log :: "(string \<Rightarrow> real option) \<Rightarrow> string \<Rightarrow> verdict \<times> int \<times> real" where
  "parse_glucose_log float_of text =
     foldl (parse_glucose_log_line float_of) (UNKNOWN, 10 ^ 18, 0) (file_lines text)"

text \<open>The stop test of the runners: \<open>conflicts == 0 and status in ("SAT", "UNSAT")\<close>.\<close>

definition zero_conflict_stop :: "verdict \<Rightarrow> int \<Rightarrow> bool" where
  "zero_conflict_stop status conflicts \<longleftrightarrow> conflicts = 0 \<and> (status = SAT \<or> status = UNSAT)"

text \<open>
  \<open>parse_glucose_log\<close> of \<open>run_asr_v4_rayleigh.py\<close> (the numpy variant): the labels are
  matched on the lower-cased line, the fields are taken after the first colon, and a
  field that was never set becomes \<open>-1\<close> at the end.
\<close>

definition py_lower_char :: "char \<Rightarrow> char" where
  "py_lower_char c =
     (let n = (of_char c :: nat) in
      if (65 \<le> n \<and> n \<le> 90) \<or> (192 \<le> n \<and> n \<le> 222 \<and> n \<noteq> 215) then char_of (n + 32) else c)"

definition py_lower :: "string \<Rightarrow> string" where
  "py_lower s = map py_lower_char s"

definition colon_field :: "string \<Rightarrow> string option" where
  "colon_field s =
     (let parts = split_on CHR '':'' s in
      if length parts \<ge> 2 then Some (strip (parts ! 1)) else None)"

definition np_rhs :: "string \<Rightarrow> string list" where
  "np_rhs s = (case colon_field s of None \<Rightarrow> [] | Some right \<Rightarrow> split_ws right)"

definition parse_glucose_log_np_line ::
  "(string \<Rightarrow> real option) \<Rightarrow> verdict \<times> int option \<times> real option \<Rightarrow> string
     \<Rightarrow> verdict \<times> int option \<times> real option" where
  "parse_glucose_log_np_line float_of st line =
     (case st of (status, conflicts, cpu_time) \<Rightarrow>
        let s = strip line in
        (status_clean status s,
         (if prefix ''c conflicts'' (py_lower s) then
            (case np_rhs s of
               [] \<Rightarrow> conflicts
             | t # _ \<Rightarrow> (case py_int t of None \<Rightarrow> conflicts | Some n \<Rightarrow> Some n))
          else conflicts),
         (if prefix ''c cpu time'' (py_lower s) then
            (case np_rhs s of
               [] \<Rightarrow> cpu_time
             | t # _ \<Rightarrow> (case float_of t of None \<Rightarrow> cpu_time | Some x \<Rightarrow> Some x))
          else cpu_time)))"

definition parse_glucose_log_np ::
  "(string \<Rightarrow> real option) \<Rightarrow> string \<Rightarrow> verdict \<times> int \<times> real" where
  "parse_glucose_log_np float_of text =
     (case foldl (parse_glucose_log_np_line float_of) (UNKNOWN, None, None) (file_lines text) of
        (status, conflicts, cpu_time) \<Rightarrow>
          (status,
           (case conflicts of None \<Rightarrow> - 1 | Some n \<Rightarrow> n),
           (case cpu_time of None \<Rightarrow> - 1 | Some x \<Rightarrow> x)))"









section \<open>Spectral picker \<open>pick_literals_asr_v0b.py\<close>\<close>

text \<open>
  Score vectors are lists indexed by the variable, with an unused entry at index 0, as
  in the script. \<open>main\<close> passes to \<open>spectral_scores\<close> and \<open>pick_top_k_literals\<close> the
  lists that \<open>build_incidence\<close> and \<open>spectral_scores\<close> built, of length
  \<open>num_vars + 1\<close>, so the reads below stay inside them; \<open>build_incidence\<close> itself
  raises on a literal beyond \<open>num_vars\<close>.
\<close>

definition l2_normalize :: "real list \<Rightarrow> real list" where
  "l2_normalize vec =
     (let s = foldl (\<lambda>a x. a + x * x) 0 vec in
      if s \<le> 0 then vec else (let inv = 1 / sqrt s in map (\<lambda>x. x * inv) vec))"

fun build_incidence_lits ::
  "nat \<Rightarrow> int list \<Rightarrow> int list \<times> nat list list \<Rightarrow> error + (int list \<times> nat list list)" where
  "build_incidence_lits j [] st = Inr st"
| "build_incidence_lits j (lit # lits) st =
     (case st of (vars_j, var_to_clauses) \<Rightarrow>
        let v = \<bar>lit\<bar> in
        if v \<notin> set vars_j then
          (if nat v < length var_to_clauses
           then build_incidence_lits j lits
                  (vars_j @ [v], var_to_clauses[nat v := var_to_clauses ! nat v @ [j]])
           else Inl IndexError)
        else build_incidence_lits j lits st)"

fun build_incidence_clauses ::
  "nat \<Rightarrow> int list list \<Rightarrow> nat list list \<times> int list list
     \<Rightarrow> error + (nat list list \<times> int list list)" where
  "build_incidence_clauses j [] st = Inr st"
| "build_incidence_clauses j (lits # rest) st =
     (case st of (var_to_clauses, clause_vars) \<Rightarrow>
        case build_incidence_lits j lits ([], var_to_clauses) of
          Inl e \<Rightarrow> Inl e
        | Inr (vars_j, vtc) \<Rightarrow> build_incidence_clauses (Suc j) rest (vtc, clause_vars @ [vars_j]))"

definition build_incidence ::
  "int \<Rightarrow> int list list \<Rightarrow> error + (nat list list \<times> int list list)" where
  "build_incidence num_vars clauses =
     build_incidence_clauses 0 clauses (replicate (nat (num_vars + 1)) [], [])"

definition spectral_init :: "int \<Rightarrow> nat list list \<Rightarrow> real list" where
  "spectral_init num_vars var_to_clauses =
     0 # map (\<lambda>v. if var_to_clauses ! nat v \<noteq> [] then 1 else 0) [1..num_vars]"

definition spectral_step ::
  "int \<Rightarrow> nat list list \<Rightarrow> int list list \<Rightarrow> real list \<Rightarrow> real list" where
  "spectral_step num_vars var_to_clauses clause_vars var_score =
     (let clause_score =
            l2_normalize (map (\<lambda>vs. foldl (\<lambda>s v. s + var_score ! nat v) 0 vs) clause_vars);
          new_var =
            map (\<lambda>v. foldl (\<lambda>s j. s + clause_score ! j) 0 (var_to_clauses ! nat v))
              [1..num_vars]
      in 0 # l2_normalize new_var)"

definition spectral_scores ::
  "int \<Rightarrow> nat list list \<Rightarrow> int list list \<Rightarrow> int \<Rightarrow> error + real list" where
  "spectral_scores num_vars var_to_clauses clause_vars iters =
     (if list_all (\<lambda>v. var_to_clauses ! nat v = []) [1..num_vars] then Inl (SysExit 1)
      else Inr ((spectral_step num_vars var_to_clauses clause_vars ^^ nat iters)
                  (0 # l2_normalize (tl (spectral_init num_vars var_to_clauses)))))"

text \<open>The slice \<open>xs[:k]\<close>, also for a negative bound.\<close>

definition py_slice_to :: "int \<Rightarrow> 'a list \<Rightarrow> 'a list" where
  "py_slice_to k xs = (if 0 \<le> k then take (nat k) xs else take (length xs - nat (- k)) xs)"

definition polarity_lit :: "occ \<Rightarrow> occ \<Rightarrow> int \<Rightarrow> int" where
  "polarity_lit pos neg v = (if pos v \<ge> neg v then v else - v)"

definition rank_scored :: "(real \<times> int) list \<Rightarrow> (real \<times> int) list" where
  "rank_scored scored = sort_key (\<lambda>(s, v). (- s, v)) scored"

definition top_k_lits :: "int \<Rightarrow> real list \<Rightarrow> occ \<Rightarrow> occ \<Rightarrow> int \<Rightarrow> error + int list" where
  "top_k_lits num_vars var_score pos neg k =
     (let scored = filter (\<lambda>(s, v). s > 0) (map (\<lambda>v. (var_score ! nat v, v)) [1..num_vars]) in
      if scored = [] then Inl (SysExit 1)
      else Inr (map (\<lambda>(s, v). polarity_lit pos neg v) (py_slice_to k (rank_scored scored))))"

definition pick_top_k_literals ::
  "int \<Rightarrow> real list \<Rightarrow> occ \<Rightarrow> occ \<Rightarrow> int \<Rightarrow> error + string" where
  "pick_top_k_literals num_vars var_score pos neg k =
     (case top_k_lits num_vars var_score pos neg k of
        Inl e \<Rightarrow> Inl e
      | Inr lits \<Rightarrow> Inr (join '' '' (map py_str lits)))"

text \<open>
  \<open>main\<close> of the script, after the conversion of the arguments: the result is the line
  it prints, or the error it stops with.
\<close>

definition pick_literals_asr_v0b :: "string \<Rightarrow> int \<Rightarrow> int \<Rightarrow> error + string" where
  "pick_literals_asr_v0b cnf k iters =
     (if k \<le> 0 then Inl (SysExit 1)
      else if iters \<le> 0 then Inl (SysExit 1)
      else case parse_dimacs cnf of
        Inl e \<Rightarrow> Inl e
      | Inr (num_vars, clauses, pos, neg) \<Rightarrow>
          (case build_incidence num_vars clauses of
             Inl e \<Rightarrow> Inl e
           | Inr (var_to_clauses, clause_vars) \<Rightarrow>
               (case spectral_scores num_vars var_to_clauses clause_vars iters of
                  Inl e \<Rightarrow> Inl e
                | Inr var_score \<Rightarrow> pick_top_k_literals num_vars var_score pos neg k)))"

text \<open>
  \<open>pick_literals\<close> of \<open>run_asr_v1.py\<close> runs the script with its default of 20
  iterations, stops on a non-zero exit status, reads the integers of the printed line
  and stops when they are fewer than \<open>k\<close>.
\<close>

definition pick_literals :: "string \<Rightarrow> int \<Rightarrow> error + int list" where
  "pick_literals cnf k =
     (case pick_literals_asr_v0b cnf k 20 of
        Inl e \<Rightarrow> Inl (SysExit 1)
      | Inr out \<Rightarrow>
          (let lits = List.map_filter py_int (split_ws (strip (out @ NL))) in
           if int (length lits) < k then Inl (SysExit 1) else Inr (py_slice_to k lits)))"

section \<open>Frequency picker \<open>pick_literals_freq.py\<close>\<close>

text \<open>
  The script reads the file with the statements of \<open>parse_dimacs\<close>, without the clause
  list, and stops with \<open>die\<close> on a token that is not an integer.
\<close>

type_synonym freq_state = "int option \<times> occ \<times> occ"

definition freq_line :: "freq_state \<Rightarrow> string \<Rightarrow> error + freq_state" where
  "freq_line st raw =
     (case st of (num_vars, pos, neg) \<Rightarrow>
        let s = strip raw in
        if s = [] then Inr st
        else if prefix ''c'' s then Inr st
        else if prefix ''p'' s then
          (let parts = split_ws s in
           if length parts < 4 \<or> parts ! 0 \<noteq> ''p'' \<or> parts ! 1 \<noteq> ''cnf'' then Inl (SysExit 1)
           else case py_int (parts ! 2) of
             None \<Rightarrow> Inl ValueError
           | Some n \<Rightarrow> Inr (Some n, pos, neg))
        else
          (case parse_dimacs_tokens (split_ws s) ([], pos, neg) of
             Inl e \<Rightarrow> Inl (SysExit 1)
           | Inr (lits, pos', neg') \<Rightarrow> Inr (num_vars, pos', neg')))"

fun freq_lines :: "freq_state \<Rightarrow> string list \<Rightarrow> error + freq_state" where
  "freq_lines st [] = Inr st"
| "freq_lines st (raw # rest) =
     (case freq_line st raw of
        Inl e \<Rightarrow> Inl e
      | Inr st' \<Rightarrow> freq_lines st' rest)"

definition rank_counts :: "(nat \<times> int) list \<Rightarrow> (nat \<times> int) list" where
  "rank_counts counts = sort_key (\<lambda>(t, v). (- int t, v)) counts"

definition freq_lits :: "string \<Rightarrow> int \<Rightarrow> error + int list" where
  "freq_lits cnf K =
     (if K \<le> 0 then Inl (SysExit 1)
      else case freq_lines (None, (\<lambda>_. 0), (\<lambda>_. 0)) (file_lines cnf) of
        Inl e \<Rightarrow> Inl e
      | Inr (None, _) \<Rightarrow> Inl (SysExit 1)
      | Inr (Some num_vars, pos, neg) \<Rightarrow>
          (let counts = filter (\<lambda>(t, v). t > 0) (map (\<lambda>v. (pos v + neg v, v)) [1..num_vars]) in
           if counts = [] then Inl (SysExit 1)
           else Inr (map (\<lambda>(t, v). polarity_lit pos neg v) (py_slice_to K (rank_counts counts)))))"

definition pick_literals_freq :: "string \<Rightarrow> int \<Rightarrow> error + string" where
  "pick_literals_freq cnf K =
     (case freq_lits cnf K of
        Inl e \<Rightarrow> Inl e
      | Inr lits \<Rightarrow> Inr (join '' '' (map py_str lits)))"

section \<open>Rayleigh selector of the clean and the force-walk runner\<close>

text \<open>
  \<open>build_clause_vars\<close>, \<open>power_iter_var_scores\<close>, \<open>literal_scores_and_polarity\<close> and
  \<open>pick_units_rayleigh\<close> have the same statements in \<open>run_asr_v4_rayleigh_clean.py\<close>
  and \<open>run_asr_v4_forcewalk.py\<close>. The vector \<open>x\<close> has \<open>nvars + 1\<close> entries;
  \<open>literal_scores_and_polarity\<close> reads \<open>x[abs(lit)]\<close> for every literal, which raises
  when a literal lies beyond \<open>nvars\<close>.
\<close>

definition build_clause_vars :: "int list list \<Rightarrow> int \<Rightarrow> int list list" where
  "build_clause_vars clauses nvars =
     map (\<lambda>cl. filter (\<lambda>v. 1 \<le> v \<and> v \<le> nvars) (map abs cl)) clauses"

definition power_iter_init :: "int \<Rightarrow> real list" where
  "power_iter_init nvars = (if nvars + 1 \<le> 0 then [] else 0 # replicate (nat nvars) 1)"

definition power_iter_step :: "int list list \<Rightarrow> int \<Rightarrow> real list \<Rightarrow> real list option" where
  "power_iter_step clause_vars nvars x =
     (let y = map (\<lambda>vs. foldl (\<lambda>s v. s + x ! nat v) 0 vs) clause_vars;
          x2 = foldl (\<lambda>acc (vs, val). foldl (\<lambda>a v. a[nat v := a ! nat v + val]) acc vs)
                 (replicate (nat (nvars + 1)) 0) (zip clause_vars y);
          norm = sqrt (foldl (\<lambda>n v. n + x2 ! nat v * x2 ! nat v) 0 [1..nvars])
      in if norm = 0 then None
         else Some (take 1 x @ map (\<lambda>v. x2 ! nat v / norm) [1..nvars]))"

fun power_iter_loop :: "nat \<Rightarrow> int list list \<Rightarrow> int \<Rightarrow> real list \<Rightarrow> real list" where
  "power_iter_loop 0 clause_vars nvars x = x"
| "power_iter_loop (Suc n) clause_vars nvars x =
     (case power_iter_step clause_vars nvars x of
        None \<Rightarrow> x
      | Some x' \<Rightarrow> power_iter_loop n clause_vars nvars x')"

definition power_iter_var_scores :: "int list list \<Rightarrow> int \<Rightarrow> int \<Rightarrow> real list" where
  "power_iter_var_scores clause_vars nvars iters =
     power_iter_loop (nat iters) clause_vars nvars (power_iter_init nvars)"

definition pos_neg_mass ::
  "int list list \<Rightarrow> real list \<Rightarrow> int \<Rightarrow> real list \<times> real list" where
  "pos_neg_mass clauses clause_mass nvars =
     foldl (\<lambda>pn (cl, w).
              foldl (\<lambda>(pos, neg) lit.
                       let v = nat \<bar>lit\<bar> in
                       if lit > 0 then (pos[v := pos ! v + w], neg)
                       else (pos, neg[v := neg ! v + w])) pn cl)
       (replicate (nat (nvars + 1)) 0, replicate (nat (nvars + 1)) 0)
       (zip clauses clause_mass)"

definition literal_scores_and_polarity ::
  "int list list \<Rightarrow> int \<Rightarrow> int \<Rightarrow> error + (real \<times> int) list" where
  "literal_scores_and_polarity clauses nvars iters =
     (if list_ex (\<lambda>cl. list_ex (\<lambda>lit. \<bar>lit\<bar> > nvars) cl) clauses then Inl IndexError
      else
        (let x = power_iter_var_scores (build_clause_vars clauses nvars) nvars iters;
             clause_mass = map (\<lambda>cl. foldl (\<lambda>m lit. m + x ! nat \<bar>lit\<bar>) 0 cl) clauses;
             pn = pos_neg_mass clauses clause_mass nvars
         in Inr (map (\<lambda>v. (x ! nat v * (fst pn ! nat v + snd pn ! nat v + 1 / 10 ^ 12),
                            if fst pn ! nat v \<ge> snd pn ! nat v then 1 else - 1))
                   [1..nvars])))"

text \<open>
  The dictionary \<open>lit_score\<close> has the keys \<open>1..nvars\<close>; it is the list of its values in
  the order of the keys, and \<open>score_of lit_score v\<close> is \<open>lit_score[v]\<close>.
\<close>

definition score_of :: "(real \<times> int) list \<Rightarrow> int \<Rightarrow> real \<times> int" where
  "score_of lit_score v = lit_score ! nat (v - 1)"

fun choose_units ::
  "(int \<Rightarrow> real \<times> int) \<Rightarrow> int set \<Rightarrow> int \<Rightarrow> int list \<Rightarrow> int list \<Rightarrow> int list" where
  "choose_units scores avoid k [] chosen = chosen"
| "choose_units scores avoid k (v # order) chosen =
     (let lit = snd (scores v) * v in
      if lit \<in> avoid \<or> - lit \<in> avoid then choose_units scores avoid k order chosen
      else if int (length (chosen @ [lit])) \<ge> k then chosen @ [lit]
      else choose_units scores avoid k order (chosen @ [lit]))"

text \<open>
  \<open>list.sort(key, reverse=True)\<close> is stable: it is the stable sort on the negated
  key.
\<close>

definition rank_order :: "(int \<Rightarrow> real \<times> int) \<Rightarrow> int \<Rightarrow> int list" where
  "rank_order scores nvars = sort_key (\<lambda>v. - fst (scores v)) [1..nvars]"

definition pick_units_rayleigh :: "string \<Rightarrow> int \<Rightarrow> int \<Rightarrow> int set \<Rightarrow> error + int list" where
  "pick_units_rayleigh cnf k iters avoid =
     (case read_dimacs cnf of
        Inl e \<Rightarrow> Inl e
      | Inr (nvars, clauses, comments) \<Rightarrow>
          (case literal_scores_and_polarity clauses nvars iters of
             Inl e \<Rightarrow> Inl e
           | Inr lit_score \<Rightarrow>
               Inr (choose_units (score_of lit_score) avoid k
                      (rank_order (score_of lit_score) nvars) [])))"

section \<open>The force-walk controller\<close>

text \<open>
  \<open>main\<close> of \<open>run_asr_v4_forcewalk.py\<close>. The solver is a function from the content of
  a CNF file to the content of its log. The result is the sequence of rows written to
  the table, \<open>(iter, k_added_total, new_units, status, conflicts, cpu_time)\<close>, and the
  uncaught exception that ended the run, if any.
\<close>

type_synonym row = "nat \<times> int \<times> int list \<times> verdict \<times> int \<times> real"

fun forcewalk_loop ::
  "(string \<Rightarrow> string) \<Rightarrow> (string \<Rightarrow> real option) \<Rightarrow> int \<Rightarrow> nat \<Rightarrow> nat \<Rightarrow> string \<Rightarrow> int set \<Rightarrow> int
     \<Rightarrow> row list \<times> error option" where
  "forcewalk_loop glucose float_of k_per_iter 0 it cur_cnf avoid k_total = ([], None)"
| "forcewalk_loop glucose float_of k_per_iter (Suc n) it cur_cnf avoid k_total =
     (case pick_units_rayleigh cur_cnf k_per_iter 25 avoid of
        Inl e \<Rightarrow> ([], Some e)
      | Inr new_units \<Rightarrow>
          if int (length new_units) < k_per_iter then ([], None)
          else
            (let avoid' = avoid \<union> set new_units \<union> uminus ` set new_units;
                 k_total' = k_total + int (length new_units)
             in case add_unit_clauses cur_cnf new_units of
                  Inl e \<Rightarrow> ([], Some e)
                | Inr cnf_out \<Rightarrow>
                    (case parse_glucose_log float_of (glucose cnf_out) of
                       (status, conflicts, cpu) \<Rightarrow>
                         if zero_conflict_stop status conflicts
                         then ([(it, k_total', new_units, status, conflicts, cpu)], None)
                         else
                           (case forcewalk_loop glucose float_of k_per_iter n (Suc it)
                                   cnf_out avoid' k_total' of
                              (rows, e) \<Rightarrow>
                                ((it, k_total', new_units, status, conflicts, cpu) # rows, e)))))"

definition run_asr_v4_forcewalk ::
  "(string \<Rightarrow> string) \<Rightarrow> (string \<Rightarrow> real option) \<Rightarrow> string \<Rightarrow> int \<Rightarrow> int
     \<Rightarrow> row list \<times> error option" where
  "run_asr_v4_forcewalk glucose float_of input_cnf max_iters k_per_iter =
     (case parse_glucose_log float_of (glucose input_cnf) of
        (status0, conf0, cpu0) \<Rightarrow>
          if zero_conflict_stop status0 conf0 then ([(0, 0, [], status0, conf0, cpu0)], None)
          else
            (case forcewalk_loop glucose float_of k_per_iter (nat max_iters) 1 input_cnf {} 0 of
               (rows, e) \<Rightarrow> ((0, 0, [], status0, conf0, cpu0) # rows, e)))"

definition new_units_of :: "row \<Rightarrow> int list" where
  "new_units_of r = fst (snd (snd r))"

section \<open>The random control \<open>run_random_v1.py\<close>\<close>

text \<open>
  The generator is a stream of draws: the \<open>i\<close>-th draw gives the number from which
  \<open>random.randint(1, nvars)\<close> takes its value and the bit of
  \<open>random.getrandbits(1)\<close>; \<open>pos\<close> is the number of draws consumed so far in the run.
  \<open>randint\<close> raises on an empty range. \<open>pick_random_literals\<close> updates the set
  \<open>used\<close> in place; the model returns it.
\<close>

fun parse_cnf_num_vars_lines :: "string list \<Rightarrow> error + int option" where
  "parse_cnf_num_vars_lines [] = Inr None"
| "parse_cnf_num_vars_lines (line # rest) =
     (if prefix ''p cnf'' line then
        (let parts = split_ws (strip line) in
         if length parts \<ge> 4 then
           (case py_int (parts ! 2) of None \<Rightarrow> Inl ValueError | Some n \<Rightarrow> Inr (Some n))
         else Inr None)
      else parse_cnf_num_vars_lines rest)"

definition parse_cnf_num_vars :: "string \<Rightarrow> error + int option" where
  "parse_cnf_num_vars cnf = parse_cnf_num_vars_lines (file_lines cnf)"

fun random_fallback :: "int \<Rightarrow> int list \<Rightarrow> int set \<Rightarrow> int list \<Rightarrow> int list \<times> int set" where
  "random_fallback want_k [] used new_lits = (new_lits, used)"
| "random_fallback want_k (v # vs) used new_lits =
     (if int (length new_lits) \<ge> want_k then (new_lits, used)
      else if v \<notin> used \<and> - v \<notin> used
        then random_fallback want_k vs (insert v used) (new_lits @ [v])
      else random_fallback want_k vs used new_lits)"

function pick_random_loop ::
  "int \<Rightarrow> int \<Rightarrow> (nat \<Rightarrow> nat \<times> bool) \<Rightarrow> nat \<Rightarrow> nat \<Rightarrow> int set \<Rightarrow> int list
     \<Rightarrow> error + (int list \<times> int set \<times> nat)" where
  "pick_random_loop nvars want_k draws tries pos used new_lits =
     (if int (length new_lits) < want_k then
        (if tries + 1 > 2000 then
           (case random_fallback want_k [1..nvars] used new_lits of
              (lits, used') \<Rightarrow> Inr (lits, used', pos))
         else if nvars < 1 then Inl ValueError
         else
           (let v = 1 + int (fst (draws pos) mod nat nvars);
                lit = (if snd (draws pos) then - v else v)
            in if lit \<notin> used
               then pick_random_loop nvars want_k draws (tries + 1) (pos + 1)
                      (insert lit used) (new_lits @ [lit])
               else pick_random_loop nvars want_k draws (tries + 1) (pos + 1) used new_lits))
      else Inr (new_lits, used, pos))"
  by pat_completeness auto
termination
  by (relation "measure (\<lambda>(nvars, want_k, draws, tries, pos, used, new_lits). 2000 - tries)") auto

declare pick_random_loop.simps [simp del]

definition pick_random_literals ::
  "string \<Rightarrow> int \<Rightarrow> int set \<Rightarrow> (nat \<Rightarrow> nat \<times> bool) \<Rightarrow> nat
     \<Rightarrow> error + (int list \<times> int set \<times> nat)" where
  "pick_random_literals cur_cnf want_k used draws pos =
     (case parse_cnf_num_vars cur_cnf of
        Inl e \<Rightarrow> Inl e
      | Inr None \<Rightarrow> Inl (SysExit 1)
      | Inr (Some nvars) \<Rightarrow> pick_random_loop nvars want_k draws 0 pos used [])"

section \<open>Order of a ranking\<close>


text \<open>The variables that occur in a clause list, in either polarity.\<close>

definition occurs :: "int \<Rightarrow> int list list \<Rightarrow> bool" where
  "occurs v clauses = list_ex (\<lambda>cl. list_ex (\<lambda>lit. \<bar>lit\<bar> = v) cl) clauses"

section \<open>Facts about the string primitives\<close>


lemma digit_val_digit_char: "n < 10 \<Longrightarrow> digit_val (digit_char n) = n"
proof -
  assume "n < 10"
  then have "n \<in> {0,1,2,3,4,5,6,7,8,9}" by auto
  then show ?thesis
    by (auto simp: digit_val_def digit_char_def)
qed

lemma is_digit_digit_char: "n < 10 \<Longrightarrow> is_digit (digit_char n)"
proof -
  assume "n < 10"
  then have "n \<in> {0,1,2,3,4,5,6,7,8,9}" by auto
  then show ?thesis
    by (auto simp: is_digit_def digit_char_def)
qed

lemma is_digit_not_space: "is_digit c \<Longrightarrow> \<not> is_space c"
  by (auto simp: is_digit_def is_space_def)

lemma is_digit_not_special:
  "is_digit c \<Longrightarrow> c \<noteq> CHR ''-'' \<and> c \<noteq> CHR ''+'' \<and> c \<noteq> CHR ''_'' \<and> c \<noteq> CHR ''c'' \<and> c \<noteq> CHR ''p''
     \<and> c \<noteq> CHR 0x0A \<and> c \<noteq> CHR 0x0D"
  by (auto simp: is_digit_def)

lemma nat_str_digits: "c \<in> set (nat_str n) \<Longrightarrow> is_digit c"
proof (induction n arbitrary: c rule: nat_str.induct)
  case (1 n)
  show ?case
  proof (cases "n < 10")
    case True
    with "1.prems" show ?thesis by (simp add: nat_str.simps [of n] is_digit_digit_char)
  next
    case False
    with "1.prems" "1.IH" show ?thesis
      by (auto simp: nat_str.simps [of n] is_digit_digit_char)
  qed
qed

lemma nat_str_nonempty: "nat_str n \<noteq> []"
  by (subst nat_str.simps) simp

lemma int_digits_all:
  "\<forall>c \<in> set ds. is_digit c \<Longrightarrow>
   int_digits acc ds = Some (foldl (\<lambda>a c. 10 * a + digit_val c) acc ds)"
  by (induction ds arbitrary: acc) auto

lemma foldl_nat_str: "foldl (\<lambda>a c. 10 * a + digit_val c) 0 (nat_str n) = n"
proof (induction n rule: nat_str.induct)
  case (1 n)
  show ?case
  proof (cases "n < 10")
    case True
    then show ?thesis by (simp add: nat_str.simps [of n] digit_val_digit_char)
  next
    case False
    with "1.IH" show ?thesis
      by (simp add: nat_str.simps [of n] digit_val_digit_char)
  qed
qed

lemma int_body_nat_str: "int_body (nat_str n) = Some n"
proof -
  obtain c cs where cs: "nat_str n = c # cs"
    using nat_str_nonempty [of n] by (cases "nat_str n") auto
  have dig: "\<forall>c \<in> set (nat_str n). is_digit c"
    using nat_str_digits by blast
  then have "is_digit c" using cs by simp
  moreover have "int_digits 0 (nat_str n) = Some n"
    using int_digits_all [OF dig, of 0] foldl_nat_str by simp
  ultimately show ?thesis by (simp add: int_body_def cs)
qed

lemma strip_id: "s \<noteq> [] \<Longrightarrow> \<not> is_space (hd s) \<Longrightarrow> \<not> is_space (last s) \<Longrightarrow> strip s = s"
proof -
  assume a: "s \<noteq> []" "\<not> is_space (hd s)" "\<not> is_space (last s)"
  then have 1: "dropWhile is_space s = s" by (simp add: dropWhile_eq_self_iff)
  from a have "hd (rev s) = last s" by (simp add: hd_rev)
  with a have 2: "dropWhile is_space (rev s) = rev s" by (simp add: dropWhile_eq_self_iff)
  show ?thesis by (simp add: strip_def 1 2)
qed

lemma py_str_chars: "c \<in> set (py_str i) \<Longrightarrow> is_digit c \<or> c = CHR ''-''"
  by (auto simp: py_str_def dest: nat_str_digits split: if_splits)

lemma py_str_nonempty: "py_str i \<noteq> []"
  by (simp add: py_str_def nat_str_nonempty)

lemma minus_not_space: "\<not> is_space (CHR ''-'')"
  by (simp add: is_space_def)

lemma py_str_no_space: "c \<in> set (py_str i) \<Longrightarrow> \<not> is_space c"
  using py_str_chars is_digit_not_space minus_not_space by blast

lemma strip_py_str: "strip (py_str i) = py_str i"
  using py_str_nonempty [of i] py_str_no_space [of _ i]
  by (intro strip_id) (auto simp: hd_in_set last_in_set)

lemma py_int_py_str: "py_int (py_str i) = Some i"
proof (cases "i < 0")
  case True
  then show ?thesis
    by (simp add: py_int_def strip_py_str) (simp add: py_str_def int_body_nat_str)
next
  case False
  obtain c cs where cs: "nat_str (nat i) = c # cs"
    using nat_str_nonempty [of "nat i"] by (cases "nat_str (nat i)") auto
  then have "is_digit c" using nat_str_digits [of c "nat i"] by simp
  then have "c \<noteq> CHR ''-''" "c \<noteq> CHR ''+''" using is_digit_not_special by auto
  moreover have "py_str i = c # cs" using False cs by (simp add: py_str_def)
  moreover have "int_body (c # cs) = Some (nat i)" using int_body_nat_str [of "nat i"] cs by simp
  moreover have "strip (c # cs) = c # cs" using strip_py_str [of i] calculation by simp
  ultimately show ?thesis using False
    by (simp add: py_int_def)
qed


lemma split_acc_word:
  "no_space w \<Longrightarrow> split_acc cur (w @ rest) = split_acc (rev w @ cur) rest"
  by (induction w arbitrary: cur) (auto simp: no_space_def)

lemma split_ws_join:
  "\<forall>w \<in> set ws. w \<noteq> [] \<and> no_space w \<Longrightarrow> split_ws (join '' '' ws) = ws"
proof (induction "'' ''" ws rule: join.induct)
  case 1
  then show ?case by (simp add: split_ws_def)
next
  case (2 x)
  then show ?case
    using split_acc_word [of x "[]" "[]"] by (simp add: split_ws_def)
next
  case (3 x y ys)
  have sp: "is_space CHR '' ''" by (simp add: is_space_def)
  from 3 have x: "x \<noteq> []" "no_space x" by auto
  have "split_acc [] (x @ CHR '' '' # join '' '' (y # ys))
          = split_acc (rev x) (CHR '' '' # join '' '' (y # ys))"
    using split_acc_word [OF x(2), of "[]"] by simp
  also have "\<dots> = x # split_acc [] (join '' '' (y # ys))"
    using x sp by simp
  finally show ?case using 3 by (simp add: split_ws_def)
qed

lemma join_snoc: "ws \<noteq> [] \<Longrightarrow> join sep (ws @ [w]) = join sep ws @ sep @ w"
  by (induction sep ws rule: join.induct) auto

lemma join_ends:
  "ws \<noteq> [] \<Longrightarrow> \<forall>w \<in> set ws. w \<noteq> [] \<Longrightarrow>
   join sep ws \<noteq> [] \<and> hd (join sep ws) = hd (hd ws) \<and> last (join sep ws) = last (last ws)"
  by (induction sep ws rule: join.induct) auto

lemma join_chars:
  "c \<in> set (join sep ws) \<Longrightarrow> c \<in> set sep \<or> (\<exists>w \<in> set ws. c \<in> set w)"
  by (induction sep ws rule: join.induct) auto

lemma strip_snoc_space: "is_space c \<Longrightarrow> strip (s @ [c]) = strip s"
proof (cases "\<forall>x \<in> set s. is_space x")
  case True
  assume c: "is_space c"
  from True have e1: "dropWhile is_space s = []" by simp
  from True c have e2: "dropWhile is_space (s @ [c]) = []"
    by (simp add: dropWhile_eq_Nil_conv)
  show ?thesis unfolding strip_def e1 e2 by simp
next
  case False
  assume c: "is_space c"
  from False obtain x where "x \<in> set s" "\<not> is_space x" by blast
  then have "dropWhile is_space (s @ [c]) = dropWhile is_space s @ [c]"
    by (rule dropWhile_append1)
  with c show ?thesis by (simp add: strip_def)
qed

lemma nl_space: "is_space (CHR 0x0A)"
  by (simp add: is_space_def)

lemma strip_line: "s \<noteq> [] \<Longrightarrow> \<not> is_space (hd s) \<Longrightarrow> \<not> is_space (last s) \<Longrightarrow> strip (s @ NL) = s"
  using strip_snoc_space [OF nl_space, of s] strip_id [of s] by simp

lemma translate_newlines_id: "CHR 0x0D \<notin> set s \<Longrightarrow> translate_newlines s = s"
  by (induction s rule: translate_newlines.induct) auto

lemma lines_acc_line:
  "CHR 0x0A \<notin> set l \<Longrightarrow> lines_acc cur (l @ NL @ rest) = (rev cur @ l @ NL) # lines_acc [] rest"
  by (induction l arbitrary: cur) auto

lemma lines_acc_concat:
  "\<forall>l \<in> set ls. CHR 0x0A \<notin> set l \<Longrightarrow>
   lines_acc [] (concat (map (\<lambda>l. l @ NL) ls)) = map (\<lambda>l. l @ NL) ls"
proof (induction ls)
  case Nil
  then show ?case by simp
next
  case (Cons l ls)
  then show ?case
    using lines_acc_line [of l "[]" "concat (map (\<lambda>l. l @ NL) ls)"] by simp
qed

lemma file_lines_concat:
  assumes "\<forall>l \<in> set ls. CHR 0x0A \<notin> set l \<and> CHR 0x0D \<notin> set l"
  shows "file_lines (concat (map (\<lambda>l. l @ NL) ls)) = map (\<lambda>l. l @ NL) ls"
proof -
  have "CHR 0x0D \<notin> set (concat (map (\<lambda>l. l @ NL) ls))"
    using assms by auto
  then show ?thesis
    using assms by (simp add: file_lines_def translate_newlines_id lines_acc_concat)
qed


lemma py_str_word: "py_str i \<noteq> [] \<and> no_space (py_str i)"
  using py_str_nonempty py_str_no_space by (auto simp: no_space_def)

lemma py_str_zero: "py_str 0 = ''0''"
  by (simp add: py_str_def nat_str.simps digit_char_def)

lemma clause_line_eq: "clause_line cl = join '' '' (map py_str (cl @ [0])) @ NL"
proof (cases "cl = []")
  case True
  then show ?thesis by (simp add: clause_line_def py_str_zero)
next
  case False
  then show ?thesis
    using join_snoc [of "map py_str cl" "'' ''" "py_str 0"]
    by (simp add: clause_line_def py_str_zero)
qed

lemma those_py_int: "those (map py_int (map py_str xs)) = Some xs"
  by (induction xs) (simp_all add: py_int_py_str)

lemma those_py_int_comp: "those (map (py_int \<circ> py_str) xs) = Some xs"
  using those_py_int [of xs] by simp

lemma hd_py_str: "hd (py_str i) \<noteq> CHR ''c'' \<and> hd (py_str i) \<noteq> CHR ''p'' \<and> \<not> is_space (hd (py_str i))"
proof -
  have "hd (py_str i) \<in> set (py_str i)" using py_str_nonempty by simp
  then have "is_digit (hd (py_str i)) \<or> hd (py_str i) = CHR ''-''"
    using py_str_chars by blast
  then show ?thesis
    using is_digit_not_special is_digit_not_space minus_not_space by auto
qed

lemma prefix_single: "prefix [c] s \<longleftrightarrow> s \<noteq> [] \<and> hd s = c"
  by (cases s) auto

lemma int_line_strip:
  assumes "xs \<noteq> []"
  shows "strip (join '' '' (map py_str xs) @ NL) = join '' '' (map py_str xs)"
    and "join '' '' (map py_str xs) \<noteq> []"
    and "hd (join '' '' (map py_str xs)) = hd (py_str (hd xs))"
proof -
  let ?ws = "map py_str xs"
  have ws: "?ws \<noteq> []" "\<forall>w \<in> set ?ws. w \<noteq> []"
    using assms py_str_nonempty by auto
  note je = join_ends [OF ws, of "'' ''"]
  show "join '' '' ?ws \<noteq> []" using je by simp
  show hd: "hd (join '' '' ?ws) = hd (py_str (hd xs))"
    using je assms by (simp add: hd_map)
  have "last (join '' '' ?ws) = last (py_str (last xs))"
    using je assms by (simp add: last_map)
  moreover have "\<not> is_space (last (py_str (last xs)))"
    using py_str_no_space [of _ "last xs"] py_str_nonempty [of "last xs"] last_in_set by blast
  ultimately show "strip (join '' '' ?ws @ NL) = join '' '' ?ws"
    using je hd hd_py_str [of "hd xs"] by (intro strip_line) auto
qed

lemma read_clause_line:
  "read_dimacs_line (nv, cls, cms) (clause_line cl) = Inr (nv, cls @ [cl], cms)"
proof -
  let ?xs = "cl @ [0]"
  let ?line = "join '' '' (map py_str ?xs)"
  have ne: "?xs \<noteq> []" by simp
  note st = int_line_strip [OF ne]
  have np: "\<not> prefix ''c'' ?line" "\<not> prefix ''p'' ?line"
    using st(2,3) hd_py_str [of "hd ?xs"] by (auto simp: prefix_single)
  have sp: "split_ws ?line = map py_str ?xs"
    by (rule split_ws_join) (use py_str_word in auto)
  show ?thesis
    unfolding clause_line_eq read_dimacs_line_def
    using st(1,2) np by (simp add: sp those_py_int_comp del: map_append)
qed

lemma read_comment_line:
  assumes "wf_comment cm"
  shows "read_dimacs_line (nv, cls, cms) (cm @ NL) = Inr (nv, cls, cms @ [cm])"
proof -
  have "strip (cm @ NL) = cm"
    using assms strip_snoc_space [OF nl_space, of cm] by (simp add: wf_comment_def)
  moreover have "cm \<noteq> []" "prefix ''c'' cm"
    using assms by (auto simp: wf_comment_def)
  ultimately show ?thesis by (simp add: read_dimacs_line_def)
qed

lemma header_line_eq:
  "header_line nv nc = join '' '' [''p'', ''cnf'', py_str nv, py_str nc] @ NL"
  by (simp add: header_line_def)

lemma read_header_line:
  "read_dimacs_line (nv0, cls, cms) (header_line nv nc) = Inr (nv, cls, cms)"
proof -
  let ?ws = "[''p'', ''cnf'', py_str nv, py_str nc]"
  let ?line = "join '' '' ?ws"
  have words: "\<forall>w \<in> set ?ws. w \<noteq> [] \<and> no_space w"
    using py_str_word by (auto simp: no_space_def is_space_def)
  have sp: "split_ws ?line = ?ws" by (rule split_ws_join [OF words])
  have "\<not> is_space (last (py_str nc))"
    using py_str_no_space [of _ nc] py_str_nonempty [of nc] last_in_set by blast
  then have st: "strip (?line @ NL) = ?line"
    by (intro strip_line) (auto simp: is_space_def py_str_nonempty)
  have pf: "?line \<noteq> []" "\<not> prefix ''c'' ?line" "prefix ''p'' ?line"
    by simp_all
  show ?thesis
    unfolding header_line_eq read_dimacs_line_def st
    using pf by (simp add: sp py_int_py_str del: join.simps)
qed

lemma read_dimacs_lines_append:
  "read_dimacs_lines st (ls1 @ ls2) =
     (case read_dimacs_lines st ls1 of Inl e \<Rightarrow> Inl e | Inr st' \<Rightarrow> read_dimacs_lines st' ls2)"
  by (induction ls1 arbitrary: st) (auto split: sum.splits)

lemma read_comment_lines:
  "list_all wf_comment cs \<Longrightarrow>
   read_dimacs_lines (nv, cls, cms) (map (\<lambda>l. l @ NL) cs) = Inr (nv, cls, cms @ cs)"
  by (induction cs arbitrary: cms) (simp_all add: read_comment_line)

lemma read_clause_lines:
  "read_dimacs_lines (nv, cls, cms) (map clause_line cs) = Inr (nv, cls @ cs, cms)"
  by (induction cs arbitrary: cls) (simp_all add: read_clause_line)

lemma clause_line_chars:
  "c \<in> set (join '' '' (map py_str xs)) \<Longrightarrow> c \<noteq> CHR 0x0A \<and> c \<noteq> CHR 0x0D"
proof -
  assume "c \<in> set (join '' '' (map py_str xs))"
  then have "c = CHR '' '' \<or> (\<exists>x \<in> set xs. c \<in> set (py_str x))"
    using join_chars [of c "'' ''" "map py_str xs"] by auto
  then show ?thesis
    using py_str_chars is_digit_not_special by fastforce
qed

lemma file_lines_layout:
  assumes "list_all wf_comment cms"
  shows "file_lines (concat (map (\<lambda>cm. cm @ NL) cms) @ header_line nv d
                     @ concat (map clause_line cls)) =
           map (\<lambda>l. l @ NL) cms @ [header_line nv d] @ map clause_line cls"
proof -
  let ?hb = "join '' '' [''p'', ''cnf'', py_str nv, py_str d]"
  let ?cb = "\<lambda>cl. join '' '' (map py_str (cl @ [0]))"
  let ?ls = "cms @ [?hb] @ map ?cb cls"
  have w: "concat (map (\<lambda>cm. cm @ NL) cms) @ header_line nv d @ concat (map clause_line cls)
             = concat (map (\<lambda>l. l @ NL) ?ls)"
    unfolding header_line_eq
    by (simp add: clause_line_eq [abs_def] comp_def del: join.simps)
  have hb: "CHR 0x0A \<notin> set ?hb \<and> CHR 0x0D \<notin> set ?hb"
    using py_str_chars [of _ nv] py_str_chars [of _ d] is_digit_not_special
    by auto
  have cb: "CHR 0x0A \<notin> set (?cb cl) \<and> CHR 0x0D \<notin> set (?cb cl)" for cl
    using clause_line_chars [of _ "cl @ [0]"] by blast
  have "\<forall>l \<in> set ?ls. CHR 0x0A \<notin> set l \<and> CHR 0x0D \<notin> set l"
    using assms hb cb
    by (auto simp: list_all_iff wf_comment_def simp del: join.simps map_append)
  from file_lines_concat [OF this] show ?thesis
    unfolding w by (simp add: header_line_eq clause_line_eq [abs_def] comp_def del: join.simps)
qed

lemma file_lines_write_dimacs:
  assumes "list_all wf_comment cms"
  shows "file_lines (write_dimacs (nv, cls, cms)) =
           map (\<lambda>l. l @ NL) cms @ [header_line nv (int (length cls))] @ map clause_line cls"
  using file_lines_layout [OF assms] by (simp add: write_dimacs_def)

lemma read_write_dimacs:
  assumes "wf_cnf c"
  shows "read_dimacs (write_dimacs c) = Inr c"
proof -
  obtain nv cls cms where c: "c = (nv, cls, cms)" by (cases c) auto
  from assms c have nv: "0 < nv" and cm: "list_all wf_comment cms"
    by (auto simp: wf_cnf_def)
  have "read_dimacs_lines (0, [], []) (file_lines (write_dimacs c)) = Inr (nv, cls, cms)"
    unfolding c file_lines_write_dimacs [OF cm]
    by (simp add: read_dimacs_lines_append read_comment_lines [OF cm] read_header_line
        read_clause_lines)
  then show ?thesis using nv by (simp add: read_dimacs_def c)
qed


lemma strip_subset: "set (strip s) \<subseteq> set s"
proof -
  have "set (strip s) \<subseteq> set (dropWhile is_space s)"
    unfolding strip_def using set_dropWhileD by fastforce
  also have "\<dots> \<subseteq> set s" using set_dropWhileD by fastforce
  finally show ?thesis .
qed

lemma strip_ends:
  assumes "strip s \<noteq> []"
  shows "\<not> is_space (hd (strip s))" and "\<not> is_space (last (strip s))"
proof -
  let ?t = "dropWhile is_space s"
  let ?u = "dropWhile is_space (rev ?t)"
  have s: "strip s = rev ?u" by (simp add: strip_def)
  with assms have u: "?u \<noteq> []" by simp
  have "?t = [] \<Longrightarrow> ?u = []" by (simp only: rev.simps dropWhile.simps)
  with u have t: "?t \<noteq> []" by blast
  have "\<not> is_space (hd ?u)" using u by (rule hd_dropWhile)
  then show "\<not> is_space (last (strip s))" using u by (simp add: s last_rev)
  have "rev ?t = takeWhile is_space (rev ?t) @ ?u" by simp
  then have "last (rev ?t) = last ?u" using u by (metis last_appendR)
  then have "last ?u = hd ?t" using t by (simp add: last_rev)
  moreover have "\<not> is_space (hd ?t)" using t by (rule hd_dropWhile)
  ultimately show "\<not> is_space (hd (strip s))" using u by (simp add: s hd_rev)
qed

lemma strip_idem: "strip (strip s) = strip s"
proof (cases "strip s = []")
  case True
  have "strip [] = []" by (simp add: strip_def)
  then show ?thesis by (simp only: True)
next
  case False
  then show ?thesis using strip_ends [OF False] by (intro strip_id)
qed

lemma strip_no_newline:
  assumes "CHR 0x0A \<notin> set (butlast l)"
  shows "CHR 0x0A \<notin> set (strip l)"
proof (cases "l = []")
  case True
  then show ?thesis by (simp add: strip_def)
next
  case False
  then have l: "l = butlast l @ [last l]" by simp
  show ?thesis
  proof (cases "last l = CHR 0x0A")
    case True
    then have "strip l = strip (butlast l)"
      using strip_snoc_space [OF nl_space, of "butlast l"] l by metis
    then show ?thesis using strip_subset [of "butlast l"] assms by auto
  next
    case False
    then have "CHR 0x0A \<notin> set l" using assms l by (metis Un_iff empty_iff empty_set set_ConsD set_append)
    then show ?thesis using strip_subset [of l] by auto
  qed
qed

lemma translate_newlines_no_cr: "CHR 0x0D \<notin> set (translate_newlines s)"
  by (induction s rule: translate_newlines.induct) (auto split: list.splits)

lemma lines_acc_chars: "l \<in> set (lines_acc cur s) \<Longrightarrow> set l \<subseteq> set cur \<union> set s"
proof (induction s arbitrary: cur)
  case Nil
  then show ?case by (auto split: if_splits)
next
  case (Cons c s)
  show ?case
  proof (cases "c = CHR 0x0A")
    case True
    with Cons.prems have "l = rev cur @ [c] \<or> l \<in> set (lines_acc [] s)" by auto
    then show ?thesis using Cons.IH [of "[]"] by auto
  next
    case False
    with Cons.prems have "l \<in> set (lines_acc (c # cur) s)" by simp
    then show ?thesis using Cons.IH [of "c # cur"] by auto
  qed
qed

lemma lines_acc_newline:
  "l \<in> set (lines_acc cur s) \<Longrightarrow> CHR 0x0A \<notin> set cur \<Longrightarrow> CHR 0x0A \<notin> set (butlast l)"
proof (induction s arbitrary: cur)
  case Nil
  then show ?case by (auto split: if_splits dest: list.set_sel(2))
next
  case (Cons c s)
  show ?case
  proof (cases "c = CHR 0x0A")
    case True
    with Cons.prems have "l = rev cur @ [c] \<or> l \<in> set (lines_acc [] s)" by auto
    then show ?thesis
    proof
      assume "l = rev cur @ [c]"
      then show ?thesis using Cons.prems(2) by simp
    next
      assume "l \<in> set (lines_acc [] s)"
      then show ?thesis using Cons.IH [of "[]"] by simp
    qed
  next
    case False
    with Cons.prems have "l \<in> set (lines_acc (c # cur) s)" by simp
    then show ?thesis using Cons.IH [of "c # cur"] Cons.prems(2) False by simp
  qed
qed

lemma file_lines_raw: "l \<in> set (file_lines text) \<Longrightarrow> raw_line l"
  unfolding file_lines_def raw_line_def
  using lines_acc_chars [of l "[]" "translate_newlines text"]
        lines_acc_newline [of l "[]" "translate_newlines text"]
        translate_newlines_no_cr [of "text"]
  by auto

lemma read_dimacs_line_comments:
  assumes "read_dimacs_line (nv, cls, cms) raw = Inr (nv', cls', cms')"
    and "raw_line raw" and "list_all wf_comment cms"
  shows "list_all wf_comment cms'"
proof -
  have "wf_comment (strip raw)" if "prefix ''c'' (strip raw)"
    using that assms(2) strip_subset [of raw] strip_no_newline [of raw]
    by (auto simp: wf_comment_def raw_line_def strip_idem)
  then show ?thesis
    using assms(1,3)
    by (auto simp: read_dimacs_line_def Let_def split: if_splits option.splits)
qed

lemma read_dimacs_lines_comments:
  "read_dimacs_lines st ls = Inr st' \<Longrightarrow> \<forall>l \<in> set ls. raw_line l \<Longrightarrow>
   list_all wf_comment (snd (snd st)) \<Longrightarrow> list_all wf_comment (snd (snd st'))"
proof (induction ls arbitrary: st)
  case Nil
  then show ?case by simp
next
  case (Cons raw ls)
  from Cons.prems(1) obtain st1 where
    r1: "read_dimacs_line st raw = Inr st1" and r2: "read_dimacs_lines st1 ls = Inr st'"
    by (auto split: sum.splits)
  have "list_all wf_comment (snd (snd st1))"
    using read_dimacs_line_comments [of "fst st" "fst (snd st)" "snd (snd st)" raw
        "fst st1" "fst (snd st1)" "snd (snd st1)"] r1 Cons.prems(2,3)
    by simp
  then show ?case using Cons.IH [OF r2] Cons.prems(2) by simp
qed

lemma read_dimacs_wf: "read_dimacs text = Inr c \<Longrightarrow> wf_cnf c"
proof -
  assume r: "read_dimacs text = Inr c"
  then obtain st where st: "read_dimacs_lines (0, [], []) (file_lines text) = Inr st"
    by (auto simp: read_dimacs_def split: sum.splits)
  have "list_all wf_comment (snd (snd st))"
    using read_dimacs_lines_comments [OF st] file_lines_raw by simp
  then show ?thesis
    using r st by (auto simp: read_dimacs_def wf_cnf_def split: if_splits prod.splits)
qed






lemma py_int_nonempty: "py_int w = Some n \<Longrightarrow> w \<noteq> []"
  by (auto simp: py_int_def strip_def)







section \<open>Facts about \<open>apply_units.py\<close>\<close>








lemma apply_units_rewrite_none:
  "\<forall>l \<in> set ls. \<not> prefix ''p '' (strip l) \<Longrightarrow> apply_units_rewrite hdr b ls = ls"
  by (induction ls) auto




lemma unit_line: "py_str lit @ '' 0'' @ NL = clause_line [lit]"
  by (simp add: clause_line_def)





section \<open>Facts about the log parsers\<close>





lemma conflicts_scan_keep:
  "\<forall>t \<in> set parts. py_int t = None \<Longrightarrow> conflicts_scan parts c = c"
  by (induction parts c rule: conflicts_scan.induct) auto

lemma cpu_last_keep:
  "\<forall>t \<in> set parts. float_of t = None \<Longrightarrow> cpu_last float_of parts c = c"
proof -
  assume a: "\<forall>t \<in> set parts. float_of t = None"
  then have "\<forall>t \<in> set (rev parts). float_of t = None" by simp
  then show ?thesis
    unfolding cpu_last_def by (auto split: list.splits)
qed

lemma log_line_proj:
  "fst (parse_glucose_log_line f st l) = status_clean (fst st) (strip l)"
  "fst (snd (parse_glucose_log_line f st l)) =
     (if prefix ''c conflicts'' (strip l)
      then conflicts_scan (split_ws (replace_char CHR '':'' CHR '' '' (strip l))) (fst (snd st))
      else fst (snd st))"
  "snd (snd (parse_glucose_log_line f st l)) =
     (if prefix ''c CPU time'' (strip l)
      then cpu_last f (split_ws (replace_char CHR '':'' CHR '' '' (strip l))) (snd (snd st))
      else snd (snd st))"
  by (simp_all add: parse_glucose_log_line_def case_prod_beta Let_def)


lemma log_conflicts_keep:
  "\<forall>l \<in> set ls. prefix ''c conflicts'' (strip l) \<longrightarrow>
      (\<forall>t \<in> set (split_ws (replace_char CHR '':'' CHR '' '' (strip l))). py_int t = None) \<Longrightarrow>
   fst (snd (foldl (parse_glucose_log_line f) st ls)) = fst (snd st)"
  by (induction ls arbitrary: st) (simp_all add: log_line_proj conflicts_scan_keep)

lemma log_cpu_keep:
  "\<forall>l \<in> set ls. prefix ''c CPU time'' (strip l) \<longrightarrow>
      (\<forall>t \<in> set (split_ws (replace_char CHR '':'' CHR '' '' (strip l))). f t = None) \<Longrightarrow>
   snd (snd (foldl (parse_glucose_log_line f) st ls)) = snd (snd st)"
  by (induction ls arbitrary: st) (simp_all add: log_line_proj cpu_last_keep)

lemma np_line_proj:
  "fst (parse_glucose_log_np_line f st l) = status_clean (fst st) (strip l)"
  "\<not> prefix ''c conflicts'' (py_lower (strip l)) \<Longrightarrow>
     fst (snd (parse_glucose_log_np_line f st l)) = fst (snd st)"
  "\<not> prefix ''c cpu time'' (py_lower (strip l)) \<Longrightarrow>
     snd (snd (parse_glucose_log_np_line f st l)) = snd (snd st)"
  by (simp_all add: parse_glucose_log_np_line_def case_prod_beta Let_def)

lemma np_conflicts_keep:
  "\<forall>l \<in> set ls. \<not> prefix ''c conflicts'' (py_lower (strip l)) \<Longrightarrow>
   fst (snd (foldl (parse_glucose_log_np_line f) st ls)) = fst (snd st)"
  by (induction ls arbitrary: st) (simp_all add: np_line_proj)

lemma np_cpu_keep:
  "\<forall>l \<in> set ls. \<not> prefix ''c cpu time'' (py_lower (strip l)) \<Longrightarrow>
   snd (snd (foldl (parse_glucose_log_np_line f) st ls)) = snd (snd st)"
  by (induction ls arbitrary: st) (simp_all add: np_line_proj)

lemma np_result:
  "fst (snd (parse_glucose_log_np f text)) =
     (case fst (snd (foldl (parse_glucose_log_np_line f) (UNKNOWN, None, None) (file_lines text)))
      of None \<Rightarrow> - 1 | Some n \<Rightarrow> n)"
  "snd (snd (parse_glucose_log_np f text)) =
     (case snd (snd (foldl (parse_glucose_log_np_line f) (UNKNOWN, None, None) (file_lines text)))
      of None \<Rightarrow> - 1 | Some x \<Rightarrow> x)"
  by (simp_all add: parse_glucose_log_np_def case_prod_beta)
















section \<open>Facts about rankings\<close>


























section \<open>Claims about the DIMACS codec\<close>

text \<open>
  C3, round trip: for every well-formed CNF value, \<open>read_dimacs\<close> applied to the text
  that \<open>write_dimacs\<close> produces returns the same variable count, the same clause
  sequence and the same comment lines; and whenever \<open>read_dimacs\<close> accepts a text,
  serialising its result and parsing again returns that result.
\<close>

theorem dimacs_round_trip:
  "(wf_cnf c \<longrightarrow> read_dimacs (write_dimacs c) = Inr c) \<and>
   (read_dimacs text = Inr c \<longrightarrow> read_dimacs (write_dimacs c) = Inr c)"
  using read_write_dimacs read_dimacs_wf by blast

theorem dimacs_round_trip_witness:
  "wf_cnf (3, [[1, -2], [2, 3], []], [''c x'']) \<and>
   read_dimacs ''c x\<newline>p cnf 3 9\<newline>1 -2 0\<newline>  2 3 0\<newline>0\<newline>''
     = Inr (3, [[1, -2], [2, 3], []], [''c x'']) \<and>
   read_dimacs (write_dimacs (3, [[1, -2], [2, 3], []], [''c x'']))
     = Inr (3, [[1, -2], [2, 3], []], [''c x''])"
proof -
  have h1: "wf_cnf (3, [[1, -2], [2, 3], []], [''c x''])"
    by code_simp
  have h2: "read_dimacs ''c x\<newline>p cnf 3 9\<newline>1 -2 0\<newline>  2 3 0\<newline>0\<newline>''
              = Inr (3, [[1, -2], [2, 3], []], [''c x''])"
    by code_simp
  show ?thesis
    using h1 h2
      dimacs_round_trip [of "(3, [[1, -2], [2, 3], []], [''c x''])"
        "''c x\<newline>p cnf 3 9\<newline>1 -2 0\<newline>  2 3 0\<newline>0\<newline>''"]
    by blast
qed




section \<open>Claims about the mutators and the header\<close>







section \<open>Claims about the solver log parsers\<close>

text \<open>
  C10, sentinels of the log parsers. In \<open>parse_glucose_log\<close> of the clean and the
  force-walk runner, a report without a line that starts with \<open>c conflicts\<close> gives
  the conflict count \<open>10 ^ 18\<close>, on which the zero-conflict stop test is false, and a
  report without a line that starts with \<open>c CPU time\<close> gives the CPU time \<open>0.0\<close>, the
  value that a report of zero seconds gives as well. The numpy variant returns \<open>-1\<close>
  and \<open>-1.0\<close> when its (lower-cased) labels are missing.
\<close>

theorem missing_fields_sentinels:
  "((\<forall>l \<in> set (file_lines text). \<not> prefix ''c conflicts'' (strip l)) \<longrightarrow>
      fst (snd (parse_glucose_log float_of text)) = 10 ^ 18 \<and>
      \<not> zero_conflict_stop (fst (parse_glucose_log float_of text))
           (fst (snd (parse_glucose_log float_of text)))) \<and>
   ((\<forall>l \<in> set (file_lines text). \<not> prefix ''c CPU time'' (strip l)) \<longrightarrow>
      snd (snd (parse_glucose_log float_of text)) = 0) \<and>
   (float_of ''0'' = Some 0 \<longrightarrow>
      snd (snd (parse_glucose_log float_of ''c CPU time : 0 s\<newline>'')) = 0) \<and>
   ((\<forall>l \<in> set (file_lines text). \<not> prefix ''c conflicts'' (py_lower (strip l))) \<longrightarrow>
      fst (snd (parse_glucose_log_np float_of text)) = - 1) \<and>
   ((\<forall>l \<in> set (file_lines text). \<not> prefix ''c cpu time'' (py_lower (strip l))) \<longrightarrow>
      snd (snd (parse_glucose_log_np float_of text)) = - 1)"
proof (intro conjI impI)
  assume a: "\<forall>l \<in> set (file_lines text). \<not> prefix ''c conflicts'' (strip l)"
  then show c: "fst (snd (parse_glucose_log float_of text)) = 10 ^ 18"
    unfolding parse_glucose_log_def by (subst log_conflicts_keep) simp_all
  show "\<not> zero_conflict_stop (fst (parse_glucose_log float_of text))
           (fst (snd (parse_glucose_log float_of text)))"
    unfolding c by (simp add: zero_conflict_stop_def)
next
  assume "\<forall>l \<in> set (file_lines text). \<not> prefix ''c CPU time'' (strip l)"
  then show "snd (snd (parse_glucose_log float_of text)) = 0"
    unfolding parse_glucose_log_def by (subst log_cpu_keep) simp_all
next
  assume "float_of ''0'' = Some 0"
  then show "snd (snd (parse_glucose_log float_of ''c CPU time : 0 s\<newline>'')) = 0"
    by (simp add: parse_glucose_log_def file_lines_def log_line_proj strip_def is_space_def
        replace_char_def split_ws_def cpu_last_def)
next
  assume "\<forall>l \<in> set (file_lines text). \<not> prefix ''c conflicts'' (py_lower (strip l))"
  then show "fst (snd (parse_glucose_log_np float_of text)) = - 1"
    by (simp add: np_result np_conflicts_keep)
next
  assume "\<forall>l \<in> set (file_lines text). \<not> prefix ''c cpu time'' (py_lower (strip l))"
  then show "snd (snd (parse_glucose_log_np float_of text)) = - 1"
    by (simp add: np_result np_cpu_keep)
qed

theorem missing_fields_sentinels_witness:
  "list_all (\<lambda>l. \<not> prefix ''c conflicts'' (strip l))
     (file_lines ''c restarts : 1\<newline>s SATISFIABLE\<newline>'') \<and>
   list_all (\<lambda>l. \<not> prefix ''c CPU time'' (strip l))
     (file_lines ''c restarts : 1\<newline>s SATISFIABLE\<newline>'') \<and>
   list_all (\<lambda>l. \<not> prefix ''c conflicts'' (py_lower (strip l)))
     (file_lines ''c restarts : 1\<newline>s SATISFIABLE\<newline>'') \<and>
   list_all (\<lambda>l. \<not> prefix ''c cpu time'' (py_lower (strip l)))
     (file_lines ''c restarts : 1\<newline>s SATISFIABLE\<newline>'') \<and>
   (\<lambda>s. if s = ''0'' then Some 0 else None) ''0'' = Some (0 :: real) \<and>
   parse_glucose_log (\<lambda>s. if s = ''0'' then Some 0 else None)
     ''c restarts : 1\<newline>s SATISFIABLE\<newline>'' = (SAT, 10 ^ 18, 0) \<and>
   parse_glucose_log (\<lambda>s. if s = ''0'' then Some 0 else None)
     ''c CPU time : 0 s\<newline>'' = (UNKNOWN, 10 ^ 18, 0) \<and>
   parse_glucose_log_np (\<lambda>s. if s = ''0'' then Some 0 else None)
     ''c restarts : 1\<newline>s SATISFIABLE\<newline>'' = (SAT, - 1, - 1)"
proof -
  let ?f = "\<lambda>s. if s = ''0'' then Some (0 :: real) else None"
  let ?t = "''c restarts : 1\<newline>s SATISFIABLE\<newline>''"
  have h1: "list_all (\<lambda>l. \<not> prefix ''c conflicts'' (strip l)) (file_lines ?t)"
    by code_simp
  have h2: "list_all (\<lambda>l. \<not> prefix ''c CPU time'' (strip l)) (file_lines ?t)"
    by code_simp
  have h3: "list_all (\<lambda>l. \<not> prefix ''c conflicts'' (py_lower (strip l))) (file_lines ?t)"
    by code_simp
  have h4: "list_all (\<lambda>l. \<not> prefix ''c cpu time'' (py_lower (strip l))) (file_lines ?t)"
    by code_simp
  have h5: "?f ''0'' = Some 0"
    by simp
  have s1: "fst (parse_glucose_log ?f ?t) = SAT"
    by code_simp
  have s2: "fst (parse_glucose_log_np ?f ?t) = SAT"
    by code_simp
  have s3: "fst (parse_glucose_log ?f ''c CPU time : 0 s\<newline>'') = UNKNOWN"
    and s4: "fst (snd (parse_glucose_log ?f ''c CPU time : 0 s\<newline>'')) = 10 ^ 18"
    by code_simp+
  note m = missing_fields_sentinels [of ?t ?f]
  have "parse_glucose_log ?f ?t = (SAT, 10 ^ 18, 0)"
    using m h1 h2 s1 by (auto simp: prod_eq_iff list_all_iff)
  moreover have "parse_glucose_log_np ?f ?t = (SAT, - 1, - 1)"
    using m h3 h4 s2 by (auto simp: prod_eq_iff list_all_iff)
  moreover have "parse_glucose_log ?f ''c CPU time : 0 s\<newline>'' = (UNKNOWN, 10 ^ 18, 0)"
    using m h5 s3 s4 by (auto simp: prod_eq_iff)
  ultimately show ?thesis
    using h1 h2 h3 h4 h5 by blast
qed




section \<open>Claims about the selectors\<close>







end
